theory Spec2Isabelle
  imports Complex_Main "HOL-Library.Word"
begin

section \<open>Token pooling notebook: binarizer, indexer and query path\<close>

text \<open>
  A shallow embedding of the code cells of
  \<^verbatim>\<open>supporting-blog-content/colpali/04_token_pooling.ipynb\<close>.
  Pure cells become HOL functions; cells that talk to the search engine thread an explicit
  record of the engine's index, the outcomes scheduled for its next calls, and a log of the
  calls made. Exceptions are values of a sum type.
\<close>

subsection \<open>Floats, as far as the binarizer reads them\<close>

text \<open>
  The only operation the notebook applies to a component is the comparison
  \<^verbatim>\<open>patch_embedding > 0\<close>. A float64 is a finite value (the real number it denotes; both
  zeros denote 0), an infinity or a NaN; every comparison with a NaN is false.
\<close>

datatype py_float = Finite real | PosInf | NegInf | NaN

fun gt_zero :: "py_float \<Rightarrow> bool" where
  "gt_zero (Finite r) = (0 < r)"
| "gt_zero PosInf = True"
| "gt_zero NegInf = False"
| "gt_zero NaN = False"

subsection \<open>The numpy and bytes operations used by \<^verbatim>\<open>to_bit_vectors\<close>\<close>

text \<open>\<^verbatim>\<open>np.where(patch_embedding > 0, 1, 0)\<close>: an integer array of ones and zeros.\<close>

definition where_gt_zero :: "py_float list \<Rightarrow> int list" where
  "where_gt_zero patch_embedding = map (\<lambda>x. if gt_zero x then 1 else 0) patch_embedding"

text \<open>
  \<^verbatim>\<open>np.packbits\<close> with its default bit order (big): every group of eight elements gives
  one uint8, the first element in the most significant bit, a non-zero element counting
  as 1; the last group is filled up with zero bits at the end.
\<close>

definition pack_byte :: "int list \<Rightarrow> nat" where
  "pack_byte chunk =
     foldl (\<lambda>acc b. 2 * acc + (if b \<noteq> 0 then 1 else 0)) 0
       (chunk @ replicate (8 - length chunk) 0)"

fun packbits :: "int list \<Rightarrow> 8 word list" where
  "packbits [] = []"
| "packbits (x # xs) = of_nat (pack_byte (take 8 (x # xs))) # packbits (drop 8 (x # xs))"

text \<open>\<^verbatim>\<open>.astype(np.int8)\<close> reads each uint8 as a signed byte.\<close>

definition astype_int8 :: "8 word list \<Rightarrow> int list" where
  "astype_int8 arr = map sint arr"

text \<open>\<^verbatim>\<open>.tobytes()\<close> of an int8 array: one byte per element, in two's complement.\<close>

definition tobytes :: "int list \<Rightarrow> 8 word list" where
  "tobytes arr = map word_of_int arr"

text \<open>\<^verbatim>\<open>bytes.hex()\<close>: two lowercase hexadecimal digits per byte, high nibble first.\<close>

definition hex_digit :: "nat \<Rightarrow> char" where
  "hex_digit n = ''0123456789abcdef'' ! n"

definition hex :: "8 word list \<Rightarrow> string" where
  "hex bs = concat (map (\<lambda>b. [hex_digit (unat b div 16), hex_digit (unat b mod 16)]) bs)"

subsection \<open>\<^verbatim>\<open>to_bit_vectors\<close>\<close>

text \<open>The body of the loop: the hexadecimal string of one patch embedding.\<close>

definition binary_vector :: "py_float list \<Rightarrow> string" where
  "binary_vector patch_embedding =
     hex (tobytes (astype_int8 (packbits (where_gt_zero patch_embedding))))"

text \<open>
  The \<^verbatim>\<open>for\<close> loop over \<^verbatim>\<open>enumerate(embedding)\<close>, appending to the list
  \<^verbatim>\<open>embeddings\<close>; the index \<^verbatim>\<open>idx\<close> is counted and never read.
\<close>

fun to_bit_vectors_loop :: "nat \<Rightarrow> py_float list list \<Rightarrow> string list \<Rightarrow> string list" where
  "to_bit_vectors_loop idx [] embeddings = embeddings"
| "to_bit_vectors_loop idx (patch_embedding # rest) embeddings =
     to_bit_vectors_loop (Suc idx) rest (embeddings @ [binary_vector patch_embedding])"

definition to_bit_vectors :: "py_float list list \<Rightarrow> string list" where
  "to_bit_vectors embedding = to_bit_vectors_loop 0 embedding []"

subsection \<open>The encoding as the specification words it\<close>

text \<open>
  These definitions follow the specification's words and share nothing with the functions
  above. A component is strictly positive when it is a finite value above zero or plus
  infinity; zero, the negative values, minus infinity and NaN are not.
\<close>

definition strictly_positive :: "py_float \<Rightarrow> bool" where
  "strictly_positive x =
     (case x of Finite r \<Rightarrow> r > 0 | PosInf \<Rightarrow> True | NegInf \<Rightarrow> False | NaN \<Rightarrow> False)"

text \<open>
  The sixteen lowercase hexadecimal digits: the decimal digits for the values below ten,
  the letters a to f for ten to fifteen.
\<close>

definition lowercase_hex_digit :: "nat \<Rightarrow> char" where
  "lowercase_hex_digit n = (if n < 10 then ''0123456789'' ! n else ''abcdef'' ! (n - 10))"

text \<open>
  Bit \<open>j\<close> of the sign pattern of a vector, with zero bits beyond its last component.
\<close>

definition sign_bit :: "py_float list \<Rightarrow> nat \<Rightarrow> nat" where
  "sign_bit v j = (if j < length v \<and> strictly_positive (v ! j) then 1 else 0)"

text \<open>Byte \<open>k\<close>: bits \<open>8k .. 8k+7\<close>, the first one weighing 128 (big-endian).\<close>

definition sign_byte :: "py_float list \<Rightarrow> nat \<Rightarrow> nat" where
  "sign_byte v k = (\<Sum>i\<leftarrow>[0..<8]. sign_bit v (8 * k + i) * 2 ^ (7 - i))"

definition sign_hex :: "py_float list \<Rightarrow> string" where
  "sign_hex v =
     concat (map (\<lambda>k. [lowercase_hex_digit (sign_byte v k div 16),
                       lowercase_hex_digit (sign_byte v k mod 16)])
       [0..<(length v + 7) div 8])"

text \<open>
  Decoding a hexadecimal string back to bits: each pair of digits is one byte, each byte
  eight bits, most significant first. \<open>None\<close> for a string that is not of this form.
\<close>

fun hex_value :: "char list \<Rightarrow> char \<Rightarrow> nat option" where
  "hex_value [] c = None"
| "hex_value (d # ds) c = (if c = d then Some 0 else map_option Suc (hex_value ds c))"

fun byte_bits :: "nat \<Rightarrow> nat \<Rightarrow> bool list" where
  "byte_bits 0 n = []"
| "byte_bits (Suc k) n = byte_bits k (n div 2) @ [odd n]"

fun decode_hex_bits :: "string \<Rightarrow> bool list option" where
  "decode_hex_bits [] = Some []"
| "decode_hex_bits [c] = None"
| "decode_hex_bits (hi # lo # rest) =
     (case (hex_value ''0123456789abcdef'' hi, hex_value ''0123456789abcdef'' lo,
            decode_hex_bits rest) of
        (Some h, Some l, Some bits) \<Rightarrow> Some (byte_bits 8 (16 * h + l) @ bits)
      | _ \<Rightarrow> None)"

text \<open>The value of a bit list read most significant bit first.\<close>

definition horner :: "bool list \<Rightarrow> nat" where
  "horner bs = foldl (\<lambda>a b. 2 * a + (if b then 1 else 0)) 0 bs"

subsection \<open>The search engine, as the notebook's cells see it\<close>

text \<open>
  Exceptions are values. \<open>ServiceError\<close> stands for any \<^verbatim>\<open>Exception\<close> the Elasticsearch
  client raises (transport or API failure); the others are the interpreter's own.
\<close>

datatype exn =
    ServiceError string
  | NameError string
  | ValueError string
  | OverflowError string
  | IndexError string

text \<open>The indexed document, \<^verbatim>\<open>{"pooled_col_pali_vectors": bit_vectors}\<close>.\<close>

record document =
  pooled_col_pali_vectors :: "string list"

datatype write_result = Created | Updated

text \<open>
  What the notebook does to the outside world: calls of the client, calls of the pooler,
  sleeps and printed lines, in the order they happen.
\<close>

datatype event =
    Exists_call string string
  | Index_call string string document
  | Search_call string
  | Pool_call
  | Sleep_call int
  | Print_warn string int exn
  | Print_fail string int exn

text \<open>
  The engine's state: the stored documents by index name and identifier, the outcomes
  scheduled for the next client calls (\<open>Some e\<close>: the call raises \<open>e\<close> and changes nothing;
  \<open>None\<close>, or nothing scheduled: the call is served), and the trace of events so far.
\<close>

record world =
  docs :: "string \<times> string \<Rightarrow> document option"
  pending :: "exn option list"
  trace :: "event list"

definition emit :: "event \<Rightarrow> world \<Rightarrow> world" where
  "emit ev w = w\<lparr>trace := trace w @ [ev]\<rparr>"

definition next_outcome :: "world \<Rightarrow> exn option \<times> world" where
  "next_outcome w =
     (case pending w of [] \<Rightarrow> (None, w) | outcome # rest \<Rightarrow> (outcome, w\<lparr>pending := rest\<rparr>))"

text \<open>\<^verbatim>\<open>es.exists(index=..., id=...)\<close>\<close>

definition es_exists :: "world \<Rightarrow> string \<Rightarrow> string \<Rightarrow> (exn + bool) \<times> world" where
  "es_exists w index doc_id =
     (case next_outcome (emit (Exists_call index doc_id) w) of
        (Some e, w') \<Rightarrow> (Inl e, w')
      | (None, w') \<Rightarrow> (Inr (docs w' (index, doc_id) \<noteq> None), w'))"

text \<open>\<^verbatim>\<open>es_client.index(index=..., id=..., document=...)\<close>\<close>

definition es_index :: "world \<Rightarrow> string \<Rightarrow> string \<Rightarrow> document \<Rightarrow> (exn + write_result) \<times> world" where
  "es_index w index doc_id doc =
     (case next_outcome (emit (Index_call index doc_id doc) w) of
        (Some e, w') \<Rightarrow> (Inl e, w')
      | (None, w') \<Rightarrow>
          (Inr (if docs w' (index, doc_id) = None then Created else Updated),
           w'\<lparr>docs := (docs w')((index, doc_id) \<mapsto> doc)\<rparr>))"

text \<open>
  \<^verbatim>\<open>es.search(index=..., body=...)\<close>. The ranking of the hits is the engine's own; it is a
  parameter here.
\<close>

definition es_search ::
  "((string \<times> string \<Rightarrow> document option) \<Rightarrow> string \<Rightarrow> 'q \<Rightarrow> string list) \<Rightarrow>
   world \<Rightarrow> string \<Rightarrow> 'q \<Rightarrow> (exn + string list) \<times> world" where
  "es_search rank w index body =
     (case next_outcome (emit (Search_call index) w) of
        (Some e, w') \<Rightarrow> (Inl e, w')
      | (None, w') \<Rightarrow> (Inr (rank (docs w') index body), w'))"

subsection \<open>Names bound in the notebook\<close>

text \<open>
  Python looks a global name up when the line that uses it runs, in the module's namespace
  and then among the builtins. These are the names the notebook's cells bind at top level,
  by \<^verbatim>\<open>import\<close>, \<^verbatim>\<open>def\<close>, \<^verbatim>\<open>with ... as\<close>, \<^verbatim>\<open>for\<close> or assignment, in the order of the
  cells. No cell imports \<^verbatim>\<open>time\<close>, and no builtin has that name.
\<close>

definition notebook_names :: "string list" where
  "notebook_names =
     [''np'', ''to_bit_vectors'',
      ''torch'', ''HierarchicalTokenPooler'', ''pooler'', ''pool_vectors'',
      ''os'', ''load_dotenv'', ''Elasticsearch'', ''ELASTIC_API_KEY'', ''ELASTIC_HOST'',
      ''INDEX_NAME'', ''es'', ''mappings'', ''index_document'',
      ''ThreadPoolExecutor'', ''tqdm'', ''pickle'', ''process_file'', ''f'',
      ''file_to_multi_vectors'', ''executor'',
      ''Image'', ''ColPali'', ''ColPaliProcessor'', ''model_name'', ''model'',
      ''col_pali_processor'', ''create_col_pali_query_vectors'',
      ''display'', ''HTML'', ''json'', ''DOCUMENT_DIR'', ''query'', ''query_vector'',
      ''es_query'', ''results'', ''image_ids'', ''html'', ''image_id'', ''image_path'']"

text \<open>
  \<^verbatim>\<open>time.sleep(secs)\<close> with an integer argument, in a namespace \<open>g\<close>: a \<^verbatim>\<open>NameError\<close> when
  \<^verbatim>\<open>time\<close> is not bound. Otherwise the seconds are converted to a signed 64-bit count of
  nanoseconds, an \<^verbatim>\<open>OverflowError\<close> when that does not fit (more than 9223372036 seconds
  either way); then a \<^verbatim>\<open>ValueError\<close> for a negative length; else the sleep.
\<close>

definition time_sleep :: "string list \<Rightarrow> int \<Rightarrow> world \<Rightarrow> (exn + unit) \<times> world" where
  "time_sleep g secs w =
     (if ''time'' \<notin> set g then (Inl (NameError ''time''), w)
      else if secs > 9223372036 \<or> secs < - 9223372036
        then (Inl (OverflowError ''timestamp too large to convert to C PyTime_t''), w)
      else if secs < 0 then (Inl (ValueError ''sleep length must be non-negative''), w)
      else (Inr (), emit (Sleep_call secs) w))"

subsection \<open>\<^verbatim>\<open>index_document\<close>\<close>

text \<open>
  The loop \<^verbatim>\<open>for attempt in range(1, retries + 1)\<close>, over the attempts still to come. The
  body returns the client's answer, or, in the handler, warns and sleeps before the next
  attempt when \<^verbatim>\<open>attempt < retries\<close>, and prints and re-raises otherwise. An exception
  raised inside the handler leaves the function. When the range is used up (or empty) the
  function falls off its end and returns \<^verbatim>\<open>None\<close>.
\<close>

fun index_attempts ::
  "string list \<Rightarrow> world \<Rightarrow> string \<Rightarrow> string \<Rightarrow> document \<Rightarrow> int \<Rightarrow> int \<Rightarrow> int list \<Rightarrow>
   (exn + write_result option) \<times> world" where
  "index_attempts g w index doc_id doc retries initial_backoff [] = (Inr None, w)"
| "index_attempts g w index doc_id doc retries initial_backoff (attempt # rest) =
     (case es_index w index doc_id doc of
        (Inr r, w1) \<Rightarrow> (Inr (Some r), w1)
      | (Inl e, w1) \<Rightarrow>
          if attempt < retries then
            (let wait_time = initial_backoff * 2 ^ nat (attempt - 1);
                 w2 = emit (Print_warn doc_id attempt e) w1
             in case time_sleep g wait_time w2 of
                  (Inl e', w3) \<Rightarrow> (Inl e', w3)
                | (Inr _, w3) \<Rightarrow>
                    index_attempts g w3 index doc_id doc retries initial_backoff rest)
          else (Inl e, emit (Print_fail doc_id retries e) w1))"

definition index_document ::
  "string list \<Rightarrow> world \<Rightarrow> string \<Rightarrow> string \<Rightarrow> document \<Rightarrow> int \<Rightarrow> int \<Rightarrow>
   (exn + write_result option) \<times> world" where
  "index_document g es_client index doc_id doc retries initial_backoff =
     index_attempts g es_client index doc_id doc retries initial_backoff [1..retries]"

subsection \<open>\<^verbatim>\<open>pool_vectors\<close> and \<^verbatim>\<open>process_file\<close>\<close>

text \<open>
  \<^verbatim>\<open>pool_vectors\<close> hands the embedding to the pooler of \<^verbatim>\<open>colpali_engine\<close> as a batch of one
  and unwraps the answer. The pooler is a library routine; its effect on the one document
  is the parameter \<open>pool_embeddings\<close>.
\<close>

definition pool_vectors ::
  "(py_float list list \<Rightarrow> exn + py_float list list) \<Rightarrow> world \<Rightarrow> py_float list list \<Rightarrow>
   (exn + py_float list list) \<times> world" where
  "pool_vectors pool_embeddings w embedding = (pool_embeddings embedding, emit Pool_call w)"

definition INDEX_NAME :: string where
  "INDEX_NAME = ''searchlabs-colpali-token-pooling''"

definition process_file ::
  "(py_float list list \<Rightarrow> exn + py_float list list) \<Rightarrow> world \<Rightarrow> string \<Rightarrow> py_float list list \<Rightarrow>
   (exn + unit) \<times> world" where
  "process_file pool_embeddings w file_name vectors =
     (case es_exists w INDEX_NAME file_name of
        (Inl e, w1) \<Rightarrow> (Inl e, w1)
      | (Inr True, w1) \<Rightarrow> (Inr (), w1)
      | (Inr False, w1) \<Rightarrow>
          (case pool_vectors pool_embeddings w1 vectors of
             (Inl e, w2) \<Rightarrow> (Inl e, w2)
           | (Inr pooled_vectors, w2) \<Rightarrow>
               (let bit_vectors = to_bit_vectors pooled_vectors
                in case index_document notebook_names w2 INDEX_NAME file_name
                          \<lparr>pooled_col_pali_vectors = bit_vectors\<rparr> 10 1 of
                     (Inl e, w3) \<Rightarrow> (Inl e, w3)
                   | (Inr _, w3) \<Rightarrow> (Inr (), w3))))"

text \<open>
  The indexing step hands one \<^verbatim>\<open>process_file\<close> call per item of the loaded mapping to a pool
  of ten workers. Which calls start and how they interleave is the pool's business and is
  not modelled; what is proved about \<^verbatim>\<open>process_file\<close> below holds for every state of the
  engine a call may find.
\<close>

text \<open>The events that are calls of \<^verbatim>\<open>es_client.index\<close>.\<close>

fun is_index_call :: "event \<Rightarrow> bool" where
  "is_index_call (Index_call index doc_id doc) = True"
| "is_index_call ev = False"

subsection \<open>The query path\<close>

text \<open>
  \<^verbatim>\<open>create_col_pali_query_vectors\<close>: the processor and the model, applied to the batch
  \<^verbatim>\<open>[query]\<close>, and element 0 of the answer. Processor and model are the parameter
  \<open>model\<close>, from a batch of queries to a batch of outputs.
\<close>

definition create_col_pali_query_vectors :: "(string list \<Rightarrow> exn + 'v list) \<Rightarrow> string \<Rightarrow> exn + 'v" where
  "create_col_pali_query_vectors model query =
     (case model [query] of
        Inl e \<Rightarrow> Inl e
      | Inr [] \<Rightarrow> Inl (IndexError ''list index out of range'')
      | Inr (x # _) \<Rightarrow> Inr x)"

record 'v es_query =
  source_flag :: bool
  script_source :: string
  query_vector :: 'v
  size_k :: nat

text \<open>
  The search cell: encode the query, build the request, search once, and keep the
  identifiers of the hits. The rendering of the gallery is left out.
\<close>

definition search_cell ::
  "(string list \<Rightarrow> exn + 'v list) \<Rightarrow>
   ((string \<times> string \<Rightarrow> document option) \<Rightarrow> string \<Rightarrow> 'v es_query \<Rightarrow> string list) \<Rightarrow>
   world \<Rightarrow> string \<Rightarrow> (exn + string list) \<times> world" where
  "search_cell model rank w query =
     (case create_col_pali_query_vectors model query of
        Inl e \<Rightarrow> (Inl e, w)
      | Inr qv \<Rightarrow>
          es_search rank w INDEX_NAME
            \<lparr>source_flag = False,
             script_source = ''maxSimDotProduct(params.query_vector, 'pooled_col_pali_vectors')'',
             query_vector = qv,
             size_k = 5\<rparr>)"

section \<open>The binarizer\<close>

subsection \<open>The loop and the byte conversions\<close>

lemma loop_eq: "to_bit_vectors_loop idx e acc = acc @ map binary_vector e"
  by (induction e arbitrary: idx acc) auto

lemma tobytes_astype: "tobytes (astype_int8 bs) = bs"
  by (simp add: tobytes_def astype_int8_def map_idI)

lemma packbits_chunks:
  "packbits xs = map (\<lambda>k. of_nat (pack_byte (take 8 (drop (8 * k) xs)))) [0..<(length xs + 7) div 8]"
proof (induction xs rule: packbits.induct)
  case 1
  then show ?case by simp
next
  case (2 x xs)
  define ys where "ys = x # xs"
  define m where "m = (length (drop 8 ys) + 7) div 8"
  have n: "(length ys + 7) div 8 = Suc m"
    unfolding m_def ys_def by simp
  have IH: "packbits (drop 8 ys) =
      map (\<lambda>k. of_nat (pack_byte (take 8 (drop (8 * k) (drop 8 ys))))) [0..<m]"
    using 2 unfolding ys_def m_def .
  have shift: "drop (8 * k) (drop 8 ys) = drop (8 * Suc k) ys" for k
    by (simp add: add.commute)
  have "packbits ys = of_nat (pack_byte (take 8 ys)) # packbits (drop 8 ys)"
    unfolding ys_def by (simp only: packbits.simps)
  also have "\<dots> = map (\<lambda>k. of_nat (pack_byte (take 8 (drop (8 * k) ys)))) (0 # map Suc [0..<m])"
    by (simp only: IH shift list.map map_map o_def mult_0_right drop_0)
  also have "0 # map Suc [0..<m] = [0..<Suc m]"
    by (simp only: map_Suc_upt upt_conv_Cons[OF zero_less_Suc])
  finally have "packbits ys =
      map (\<lambda>k. of_nat (pack_byte (take 8 (drop (8 * k) ys)))) [0..<(length ys + 7) div 8]"
    by (simp only: n)
  then show ?case by (simp only: ys_def)
qed

lemma pad8: "length c \<le> 8 \<Longrightarrow>
   c @ replicate (8 - length c) (0::int) = map (\<lambda>i. if i < length c then c ! i else 0) [0..<8]"
  by (rule nth_equalityI) (auto simp: nth_append)

lemma upt8: "[0..<8] = [0,1,2,3,4,5,6,7::nat]"
  by code_simp

lemma strictly_positive_gt_zero: "strictly_positive x = gt_zero x"
  by (cases x) (simp_all add: strictly_positive_def)

lemma pack_byte_sign:
  "pack_byte (take 8 (drop (8 * k) (where_gt_zero v))) = sign_byte v k"
proof -
  let ?c = "take 8 (drop (8 * k) (where_gt_zero v))"
  have len: "length ?c \<le> 8" by simp
  have nth: "(if i < length ?c then ?c ! i else 0) = int (sign_bit v (8 * k + i))" if "i < 8" for i
    using that by (auto simp: where_gt_zero_def sign_bit_def strictly_positive_gt_zero)
  have "?c @ replicate (8 - length ?c) 0 = map (\<lambda>i. int (sign_bit v (8 * k + i))) [0..<8]"
    unfolding pad8[OF len] by (rule map_cong) (auto simp: nth simp del: length_take length_drop)
  then show ?thesis
    unfolding pack_byte_def sign_byte_def upt8 by (simp add: sign_bit_def)
qed

lemma sign_byte_less: "sign_byte v k < 256"
  unfolding sign_byte_def upt8 by (simp add: sign_bit_def)

lemma unat_sign_byte: "unat (of_nat (sign_byte v k) :: 8 word) = sign_byte v k"
  using sign_byte_less[of v k] by (simp add: unat_of_nat)

lemma length_where: "length (where_gt_zero v) = length v"
  by (simp add: where_gt_zero_def)

lemma binary_vector_bytes:
  "binary_vector v =
     concat (map (\<lambda>k. [hex_digit (sign_byte v k div 16), hex_digit (sign_byte v k mod 16)])
       [0..<(length v + 7) div 8])"
  by (simp add: binary_vector_def tobytes_astype packbits_chunks pack_byte_sign hex_def
      length_where unat_sign_byte o_def)

lemma lowercase_hex_digits_all:
  "list_all (\<lambda>n. lowercase_hex_digit n = hex_digit n) [0..<16]"
  by code_simp

lemma lowercase_hex_digit_eq: "n < 16 \<Longrightarrow> lowercase_hex_digit n = hex_digit n"
  using lowercase_hex_digits_all unfolding list_all_iff by simp

lemma binary_vector_sign_hex: "binary_vector v = sign_hex v"
proof -
  have "sign_byte v k div 16 < 16" and "sign_byte v k mod 16 < 16" for k
    using sign_byte_less[of v k] by auto
  then show ?thesis
    by (simp add: binary_vector_bytes sign_hex_def lowercase_hex_digit_eq)
qed

lemma to_bit_vectors_map: "to_bit_vectors e = map binary_vector e"
  by (simp add: to_bit_vectors_def loop_eq)

lemma hex_value_digits_all:
  "list_all (\<lambda>n. hex_value ''0123456789abcdef'' (hex_digit n) = Some n) [0..<16]"
  by code_simp

lemma hex_value_digit: "n < 16 \<Longrightarrow> hex_value ''0123456789abcdef'' (hex_digit n) = Some n"
  using hex_value_digits_all unfolding list_all_iff by simp

lemma decode_pair:
  assumes "h < 16" "l < 16"
  shows "decode_hex_bits (hex_digit h # hex_digit l # rest) =
     map_option (\<lambda>bits. byte_bits 8 (16 * h + l) @ bits) (decode_hex_bits rest)"
  by (cases "decode_hex_bits rest")
     (simp_all only: decode_hex_bits.simps hex_value_digit[OF assms(1)] hex_value_digit[OF assms(2)]
        prod.case option.case option.map)

lemma byte_bits_horner: "byte_bits (length bs) (horner bs) = bs"
  by (induction bs rule: rev_induct) (auto simp: horner_def)

lemma sign_byte_horner: "sign_byte v k = horner (map (\<lambda>i. 8 * k + i < length v \<and> gt_zero (v ! (8 * k + i))) [0..<8])"
  unfolding sign_byte_def upt8 horner_def by (simp add: sign_bit_def strictly_positive_gt_zero)

lemma byte_bits_sign_byte:
  "byte_bits 8 (sign_byte v k) = map (\<lambda>i. 8 * k + i < length v \<and> gt_zero (v ! (8 * k + i))) [0..<8]"
proof -
  let ?bs = "map (\<lambda>i. 8 * k + i < length v \<and> gt_zero (v ! (8 * k + i))) [0..<8]"
  have "length ?bs = 8" by simp
  then have "byte_bits 8 (horner ?bs) = ?bs"
    using byte_bits_horner[of ?bs] by (simp only:)
  then show ?thesis by (simp only: sign_byte_horner)
qed

lemma decode_sign_bytes:
  "decode_hex_bits (concat (map (\<lambda>k. [hex_digit (sign_byte v k div 16), hex_digit (sign_byte v k mod 16)]) ks))
   = Some (concat (map (\<lambda>k. byte_bits 8 (sign_byte v k)) ks))"
proof (induction ks)
  case Nil
  then show ?case by simp
next
  case (Cons k ks)
  have d: "sign_byte v k div 16 < 16" and m: "sign_byte v k mod 16 < 16"
    using sign_byte_less[of v k] by auto
  have j: "16 * (sign_byte v k div 16) + sign_byte v k mod 16 = sign_byte v k"
    by simp
  show ?case
    by (simp only: list.map concat.simps append.simps decode_pair[OF d m] Cons j option.map)
qed

lemma concat_blocks: "concat (map (\<lambda>k. map (\<lambda>i. f (8 * k + i)) [0..<8]) [0..<m]) = map f [0..<8 * m]"
proof (induction m)
  case 0
  then show ?case by simp
next
  case (Suc m)
  have a: "[0..<8 * m + 8] = [0..<8 * m] @ [8 * m..<8 * m + 8]"
    by (rule upt_add_eq_append) simp
  have b: "[8 * m..<8 * m + 8] = map (\<lambda>i. 8 * m + i) [0..<8]"
    using map_add_upt[of "8 * m" 8] by (simp only: add.commute)
  have c: "8 * Suc m = 8 * m + 8" by simp
  have "concat (map (\<lambda>k. map (\<lambda>i. f (8 * k + i)) [0..<8]) [0..<Suc m])
      = map f [0..<8 * m] @ map (\<lambda>i. f (8 * m + i)) [0..<8]"
    by (simp only: upt_Suc_append[OF le0] map_append concat_append Suc list.map concat.simps append_Nil2)
  also have "\<dots> = map f [0..<8 * Suc m]"
    by (simp only: c a b map_append map_map o_def)
  finally show ?case .
qed

lemma sign_bits_padded:
  "length v \<le> n \<Longrightarrow> map (\<lambda>j. j < length v \<and> gt_zero (v ! j)) [0..<n]
     = map gt_zero v @ replicate (n - length v) False"
  by (rule nth_equalityI) (auto simp: nth_append)

lemma decode_binary_vector:
  "decode_hex_bits (binary_vector v) =
     Some (map gt_zero v @ replicate (8 * ((length v + 7) div 8) - length v) False)"
proof -
  have le: "length v \<le> 8 * ((length v + 7) div 8)" by simp
  show ?thesis
    unfolding binary_vector_bytes decode_sign_bytes byte_bits_sign_byte
      concat_blocks[of "\<lambda>j. j < length v \<and> gt_zero (v ! j)"] sign_bits_padded[OF le] ..
qed

lemma length_binary_vector: "length (binary_vector v) = 2 * ((length v + 7) div 8)"
  by (simp add: binary_vector_bytes length_concat o_def sum_list_triv)

subsection \<open>Claims about \<^verbatim>\<open>to_bit_vectors\<close>\<close>

text \<open>
  Claim C1. For every input sequence of pooled float vectors, \<^verbatim>\<open>to_bit_vectors\<close> returns one
  hexadecimal string per input vector, in the same order; the string of a vector is its sign
  pattern (a component strictly greater than zero gives bit 1, any other component bit 0),
  the bits packed big-endian into bytes and written as lowercase hexadecimal digits. The
  encoding on the right is the one worded from the specification, with its own threshold and
  its own digits. Three inputs are computed through: nine components with a zero, a negative
  value and a fraction (two bytes, the second padded); twenty-four components whose bytes
  need the six letters; and a batch with an empty vector, a NaN and the two infinities.
\<close>

theorem to_bit_vectors_sign_hex:
  "to_bit_vectors embedding = map sign_hex embedding
   \<and> length (to_bit_vectors embedding) = length embedding
   \<and> to_bit_vectors
        [[Finite (1/2), Finite (-2), Finite 0, Finite 3, Finite 1, Finite 0, Finite 1, Finite 1,
          Finite 7]] = [''9b80'']
   \<and> to_bit_vectors
        [[Finite 1, Finite 0, Finite 1, Finite 0, Finite 1, Finite 0, Finite 1, Finite 1,
          Finite 1, Finite 1, Finite 0, Finite 0, Finite 1, Finite 1, Finite 0, Finite 1,
          Finite 1, Finite 1, Finite 1, Finite 0, Finite 1, Finite 1, Finite 1, Finite 1]]
       = [''abcdef'']
   \<and> to_bit_vectors [[], [NaN, PosInf, NegInf, Finite (-1)], [Finite 1]] = ['''', ''40'', ''80'']"
proof (intro conjI)
  show "to_bit_vectors embedding = map sign_hex embedding"
    by (simp add: to_bit_vectors_map binary_vector_sign_hex)
  show "length (to_bit_vectors embedding) = length embedding"
    by (simp add: to_bit_vectors_map)
  show "to_bit_vectors
        [[Finite (1/2), Finite (-2), Finite 0, Finite 3, Finite 1, Finite 0, Finite 1, Finite 1,
          Finite 7]] = [''9b80'']"
    by code_simp
  show "to_bit_vectors
        [[Finite 1, Finite 0, Finite 1, Finite 0, Finite 1, Finite 0, Finite 1, Finite 1,
          Finite 1, Finite 1, Finite 0, Finite 0, Finite 1, Finite 1, Finite 0, Finite 1,
          Finite 1, Finite 1, Finite 1, Finite 0, Finite 1, Finite 1, Finite 1, Finite 1]]
       = [''abcdef'']"
    by code_simp
  show "to_bit_vectors [[], [NaN, PosInf, NegInf, Finite (-1)], [Finite 1]] = ['''', ''40'', ''80'']"
    by code_simp
qed

text \<open>
  Claim C5. Decoding the hexadecimal string that \<^verbatim>\<open>to_bit_vectors\<close> produces for a vector
  back into bits gives the vector's sign pattern: bit \<open>j\<close> is set exactly when component
  \<open>j\<close> is greater than zero. The magnitudes are lost: vectors with the same signs and
  different magnitudes give the same string.
\<close>

theorem to_bit_vectors_roundtrip:
  "(i < length embedding \<longrightarrow>
      (\<exists>bits. decode_hex_bits (to_bit_vectors embedding ! i) = Some bits
         \<and> take (length (embedding ! i)) bits = map gt_zero (embedding ! i)
         \<and> (\<forall>j < length (embedding ! i). bits ! j = gt_zero (embedding ! i ! j))))
   \<and> to_bit_vectors [[Finite 1, Finite (-3)]] = to_bit_vectors [[Finite 2, Finite (-1/2)]]"
proof (intro conjI impI)
  assume i: "i < length embedding"
  let ?v = "embedding ! i"
  let ?bits = "map gt_zero ?v @ replicate (8 * ((length ?v + 7) div 8) - length ?v) False"
  have "decode_hex_bits (to_bit_vectors embedding ! i) = Some ?bits"
    using i by (simp add: to_bit_vectors_map decode_binary_vector)
  moreover have "take (length ?v) ?bits = map gt_zero ?v" by simp
  moreover have "\<forall>j < length ?v. ?bits ! j = gt_zero (?v ! j)" by (simp add: nth_append)
  ultimately show "\<exists>bits. decode_hex_bits (to_bit_vectors embedding ! i) = Some bits
         \<and> take (length ?v) bits = map gt_zero ?v
         \<and> (\<forall>j < length ?v. bits ! j = gt_zero (?v ! j))"
    by blast
next
  show "to_bit_vectors [[Finite 1, Finite (-3)]] = to_bit_vectors [[Finite 2, Finite (-1/2)]]"
    by code_simp
qed

text \<open>The round trip at a vector of five components, among them a NaN, a zero and an infinity.\<close>

theorem to_bit_vectors_roundtrip_witness:
  "(0::nat) < length [[Finite 1, Finite (-1), NaN, Finite 0, PosInf]] \<and>
   to_bit_vectors [[Finite 1, Finite (-1), NaN, Finite 0, PosInf]] ! 0 = ''88'' \<and>
   decode_hex_bits ''88'' = Some [True, False, False, False, True, False, False, False] \<and>
   (\<exists>bits. decode_hex_bits (to_bit_vectors [[Finite 1, Finite (-1), NaN, Finite 0, PosInf]] ! 0) = Some bits
      \<and> take 5 bits = [True, False, False, False, True])"
proof -
  let ?e = "[[Finite 1, Finite (-1), NaN, Finite 0, PosInf]]"
  have enc: "to_bit_vectors ?e ! 0 = ''88''"
    by code_simp
  have dec: "decode_hex_bits ''88'' = Some [True, False, False, False, True, False, False, False]"
    by code_simp
  have i: "0 < length ?e" by simp
  have len: "length (?e ! 0) = 5" by simp
  have sg: "map gt_zero (?e ! 0) = [True, False, False, False, True]" by simp
  from to_bit_vectors_roundtrip[of 0 ?e] i
  have "\<exists>bits. decode_hex_bits (to_bit_vectors ?e ! 0) = Some bits
         \<and> take (length (?e ! 0)) bits = map gt_zero (?e ! 0)"
    by blast
  then have "\<exists>bits. decode_hex_bits (to_bit_vectors ?e ! 0) = Some bits
         \<and> take 5 bits = [True, False, False, False, True]"
    by (simp only: len sg)
  with i enc dec show ?thesis by blast
qed

text \<open>
  Claim C9. Binarization is deterministic: the string of a vector depends on the vector
  alone, neither on its position nor on the other vectors of the batch, so two applications
  to the same vector give the same hexadecimal string.
\<close>

theorem to_bit_vectors_deterministic:
  "i < length e1 \<Longrightarrow> j < length e2 \<Longrightarrow> e1 ! i = e2 ! j \<Longrightarrow>
   to_bit_vectors e1 ! i = to_bit_vectors e2 ! j"
  by (simp add: to_bit_vectors_map)

text \<open>The same vector at position 1 of one batch and at position 0 of another.\<close>

theorem to_bit_vectors_deterministic_witness:
  "(1::nat) < length [[Finite 1], [Finite (-1), Finite 2]] \<and>
   (0::nat) < length [[Finite (-1), Finite 2]] \<and>
   [[Finite 1], [Finite (-1), Finite 2]] ! 1 = [[Finite (-1), Finite 2]] ! 0 \<and>
   to_bit_vectors [[Finite 1], [Finite (-1), Finite 2]] ! 1 = to_bit_vectors [[Finite (-1), Finite 2]] ! 0"
  using to_bit_vectors_deterministic[of 1 "[[Finite 1], [Finite (-1), Finite 2]]" 0 "[[Finite (-1), Finite 2]]"]
  by simp

text \<open>
  Claim C10. For a vector of dimension \<open>d\<close> the string has two digits for each of the
  \<open>ceil(d/8)\<close> bytes and so encodes \<open>8 * ceil(d/8)\<close> bits: the sign pattern followed by
  zero bits up to the byte boundary. Vectors of different dimensions can therefore give the
  same string. An empty vector gives the empty string, an empty input an empty list.
\<close>

theorem to_bit_vectors_padding:
  "(\<exists>s bits. to_bit_vectors [v] = [s] \<and> length s = 2 * ((length v + 7) div 8)
      \<and> decode_hex_bits s = Some bits \<and> length bits = 8 * ((length v + 7) div 8)
      \<and> bits = map gt_zero v @ replicate (8 * ((length v + 7) div 8) - length v) False)
   \<and> to_bit_vectors [[Finite 1]] = to_bit_vectors [[Finite 1, Finite (-1)]]
   \<and> to_bit_vectors [[]] = ['''']
   \<and> to_bit_vectors [] = []"
proof (intro conjI)
  have "length v \<le> 8 * ((length v + 7) div 8)" by simp
  then have "length (map gt_zero v @ replicate (8 * ((length v + 7) div 8) - length v) False)
      = 8 * ((length v + 7) div 8)"
    by simp
  then show "\<exists>s bits. to_bit_vectors [v] = [s] \<and> length s = 2 * ((length v + 7) div 8)
      \<and> decode_hex_bits s = Some bits \<and> length bits = 8 * ((length v + 7) div 8)
      \<and> bits = map gt_zero v @ replicate (8 * ((length v + 7) div 8) - length v) False"
    using to_bit_vectors_map[of "[v]"] length_binary_vector[of v] decode_binary_vector[of v]
    by (intro exI[of _ "binary_vector v"] exI) (simp del: length_append length_replicate)
next
  show "to_bit_vectors [[Finite 1]] = to_bit_vectors [[Finite 1, Finite (-1)]]"
    by code_simp
next
  show "to_bit_vectors [[]] = ['''']" by code_simp
next
  show "to_bit_vectors [] = []" by code_simp
qed

section \<open>The indexer\<close>

subsection \<open>The existence check and the skip\<close>

lemma time_not_bound: "''time'' \<notin> set notebook_names"
  by (simp add: notebook_names_def)

lemma es_exists_trace:
  "trace (snd (es_exists w index doc_id)) = trace w @ [Exists_call index doc_id]"
  by (simp add: es_exists_def next_outcome_def emit_def split: list.split option.split)

lemma es_exists_docs: "docs (snd (es_exists w index doc_id)) = docs w"
  by (simp add: es_exists_def next_outcome_def emit_def split: list.split option.split)

lemma es_exists_pending: "pending (snd (es_exists w index doc_id)) = tl (pending w)"
  by (simp add: es_exists_def next_outcome_def emit_def split: list.split option.split)

lemma es_exists_result:
  "fst (es_exists w index doc_id) =
     (case pending w of Some e # _ \<Rightarrow> Inl e | _ \<Rightarrow> Inr (docs w (index, doc_id) \<noteq> None))"
  by (simp add: es_exists_def next_outcome_def emit_def split: list.split option.split)

lemma process_file_present:
  assumes "docs w (INDEX_NAME, file_name) \<noteq> None"
  shows "process_file P w file_name vectors =
     (case fst (es_exists w INDEX_NAME file_name) of Inl e \<Rightarrow> Inl e | Inr _ \<Rightarrow> Inr (),
      snd (es_exists w INDEX_NAME file_name))"
proof (cases "es_exists w INDEX_NAME file_name")
  case (Pair r w1)
  have "r \<noteq> Inr False"
    using es_exists_result[of w INDEX_NAME file_name] assms Pair
    by (auto split: list.splits option.splits)
  then show ?thesis
    using Pair by (cases r) (auto simp: process_file_def)
qed

subsection \<open>Writes\<close>

lemma es_index_fault:
  "pending w = Some e # rest \<Longrightarrow>
   es_index w index doc_id doc = (Inl e, (emit (Index_call index doc_id doc) w)\<lparr>pending := rest\<rparr>)"
  by (simp add: es_index_def next_outcome_def emit_def)

lemma es_index_served:
  "pending w = None # rest \<Longrightarrow>
   es_index w index doc_id doc =
     (Inr (if docs w (index, doc_id) = None then Created else Updated),
      (emit (Index_call index doc_id doc) w)
        \<lparr>pending := rest, docs := (docs w)((index, doc_id) \<mapsto> doc)\<rparr>)"
  by (simp add: es_index_def next_outcome_def emit_def)

lemma es_index_Inr_docs:
  "es_index w index doc_id doc = (Inr r, w') \<Longrightarrow> docs w' (index, doc_id) = Some doc"
  by (auto simp: es_index_def next_outcome_def emit_def split: list.splits option.splits)

lemma index_attempts_written:
  "index_attempts g w index doc_id doc retries ib atts = (Inr (Some r), w') \<Longrightarrow>
   docs w' (index, doc_id) = Some doc"
proof (induction atts arbitrary: w)
  case Nil
  then show ?case by simp
next
  case (Cons attempt rest)
  obtain res w1 where call: "es_index w index doc_id doc = (res, w1)"
    by (cases "es_index w index doc_id doc")
  show ?case
  proof (cases res)
    case (Inr wr)
    with call Cons.prems have "w' = w1" by simp
    with call Inr show ?thesis by (simp add: es_index_Inr_docs)
  next
    case (Inl e)
    with call Cons.prems Cons.IH show ?thesis
      by (auto simp: Let_def split: if_splits prod.splits sum.splits)
  qed
qed

lemma index_attempts_not_None:
  "atts \<noteq> [] \<Longrightarrow> last atts = retries \<Longrightarrow>
   fst (index_attempts g w index doc_id doc retries ib atts) \<noteq> Inr None"
proof (induction atts arbitrary: w)
  case Nil
  then show ?case by simp
next
  case (Cons attempt rest)
  show ?case
  proof (cases "rest = []")
    case True
    with Cons.prems show ?thesis
      by (auto simp: Let_def split: prod.splits sum.splits)
  next
    case False
    with Cons.prems have "last rest = retries" by simp
    from Cons.IH[OF False this] show ?thesis
      by (auto simp: Let_def split: prod.splits sum.splits)
  qed
qed

lemma last_upto: "i \<le> j \<Longrightarrow> last [i..j] = j"
  by (simp add: upto_rec2)

lemma index_document_not_None:
  "1 \<le> retries \<Longrightarrow> fst (index_document g w index doc_id doc retries ib) \<noteq> Inr None"
  unfolding index_document_def
  by (rule index_attempts_not_None) (simp_all add: last_upto)

lemma index_document_written:
  "index_document g w index doc_id doc retries ib = (Inr (Some r), w') \<Longrightarrow>
   docs w' (index, doc_id) = Some doc"
  unfolding index_document_def by (rule index_attempts_written)

lemma process_file_returns_indexed:
  assumes "process_file P w file_name vectors = (Inr (), w')"
  shows "docs w' (INDEX_NAME, file_name) \<noteq> None"
proof (cases "docs w (INDEX_NAME, file_name) = None")
  case False
  then show ?thesis
    using assms process_file_present[OF False, of P vectors] es_exists_docs[of w INDEX_NAME file_name]
    by (cases "es_exists w INDEX_NAME file_name") auto
next
  case True
  obtain r w1 where ex: "es_exists w INDEX_NAME file_name = (r, w1)"
    by (cases "es_exists w INDEX_NAME file_name")
  have r: "r = Inr False"
    using assms ex True es_exists_result[of w INDEX_NAME file_name]
    by (cases r) (auto simp: process_file_def split: list.splits option.splits)
  obtain pr w2 where po: "pool_vectors P w1 vectors = (pr, w2)"
    by (cases "pool_vectors P w1 vectors")
  from assms ex r po obtain pooled where pr: "pr = Inr pooled"
    by (cases pr) (auto simp: process_file_def)
  let ?doc = "\<lparr>pooled_col_pali_vectors = to_bit_vectors pooled\<rparr>"
  obtain ir w3 where ix: "index_document notebook_names w2 INDEX_NAME file_name ?doc 10 1 = (ir, w3)"
    by (cases "index_document notebook_names w2 INDEX_NAME file_name ?doc 10 1")
  from assms ex r po pr ix obtain res where ir: "ir = Inr res" and w3: "w3 = w'"
    by (cases ir) (auto simp: process_file_def)
  have "res \<noteq> None"
    using index_document_not_None[of 10 notebook_names w2 INDEX_NAME file_name ?doc 1] ix ir
    by auto
  then obtain wr where "res = Some wr" by auto
  with ix ir w3 show ?thesis
    using index_document_written[of notebook_names w2 INDEX_NAME file_name ?doc 10 1 wr w']
    by simp
qed

subsection \<open>\<^verbatim>\<open>index_document\<close> when \<^verbatim>\<open>time\<close> is unbound, and when it is bound\<close>

lemma index_document_unbound_time:
  assumes "''time'' \<notin> set g" "1 < retries" "pending w = Some e # rest"
  shows "index_document g w index doc_id doc retries ib =
     (Inl (NameError ''time''),
      emit (Print_warn doc_id 1 e) ((emit (Index_call index doc_id doc) w)\<lparr>pending := rest\<rparr>))"
proof -
  have "[1..retries] = 1 # [2..retries]"
    using assms(2) by (simp add: upto_rec1)
  then show ?thesis
    using assms by (simp add: index_document_def es_index_fault time_sleep_def)
qed

lemma wait_in_range:
  assumes "0 \<le> ib" "1 \<le> a" "a < retries" "ib * 2 ^ nat (retries - 2) \<le> (m::int)"
  shows "ib * 2 ^ nat (a - 1) \<le> m"
proof -
  have "nat (a - 1) \<le> nat (retries - 2)"
    using assms(2,3) by simp
  then have "(2::int) ^ nat (a - 1) \<le> 2 ^ nat (retries - 2)"
    by (simp add: power_increasing)
  then have "ib * 2 ^ nat (a - 1) \<le> ib * 2 ^ nat (retries - 2)"
    using assms(1) by (rule mult_left_mono)
  with assms(4) show ?thesis by simp
qed

lemma time_sleep_ok:
  assumes "''time'' \<in> set g" "0 \<le> secs" "secs \<le> 9223372036"
  shows "time_sleep g secs w = (Inr (), emit (Sleep_call secs) w)"
  using assms by (simp add: time_sleep_def)

lemma index_attempts_retry:
  assumes "''time'' \<in> set g" "0 \<le> ib" "ib * 2 ^ nat (retries - 2) \<le> 9223372036"
  shows "1 \<le> a \<Longrightarrow> a + int (length es) \<le> retries \<Longrightarrow> pending w = map Some es @ None # rest \<Longrightarrow>
    index_attempts g w index doc_id doc retries ib [a..retries] =
      (Inr (Some (if docs w (index, doc_id) = None then Created else Updated)),
       w\<lparr>docs := (docs w)((index, doc_id) \<mapsto> doc), pending := rest,
         trace := trace w @
           concat (map (\<lambda>(k, e). [Index_call index doc_id doc, Print_warn doc_id k e,
                                   Sleep_call (ib * 2 ^ nat (k - 1))]) (zip [a..retries] es))
           @ [Index_call index doc_id doc]\<rparr>)"
proof (induction es arbitrary: a w)
  case Nil
  then have "[a..retries] = a # [a + 1..retries]"
    by (simp add: upto_rec1)
  with Nil show ?case
    by (auto simp: es_index_served emit_def intro!: world.equality)
next
  case (Cons e es)
  have lt: "a < retries" using Cons.prems by simp
  have up: "[a..retries] = a # [a + 1..retries]"
    using lt by (simp add: upto_rec1)
  have p: "pending w = Some e # (map Some es @ None # rest)"
    using Cons.prems by simp
  define w3 where "w3 = emit (Sleep_call (ib * 2 ^ nat (a - 1)))
      (emit (Print_warn doc_id a e) ((emit (Index_call index doc_id doc) w)\<lparr>pending := map Some es @ None # rest\<rparr>))"
  have nonneg: "0 \<le> ib * 2 ^ nat (a - 1)"
    using assms(2) by simp
  have small: "ib * 2 ^ nat (a - 1) \<le> 9223372036"
    using wait_in_range[OF assms(2) _ lt assms(3)] Cons.prems by simp
  have step: "index_attempts g w index doc_id doc retries ib [a..retries] =
      index_attempts g w3 index doc_id doc retries ib [a + 1..retries]"
    unfolding up using lt
    by (simp add: es_index_fault[OF p] time_sleep_ok[OF assms(1) nonneg small] w3_def Let_def)
  have p3: "pending w3 = map Some es @ None # rest" and d3: "docs w3 = docs w"
    and t3: "trace w3 = trace w @ [Index_call index doc_id doc, Print_warn doc_id a e,
                                   Sleep_call (ib * 2 ^ nat (a - 1))]"
    by (simp_all add: w3_def emit_def)
  have "1 \<le> a + 1" "a + 1 + int (length es) \<le> retries"
    using Cons.prems by simp_all
  from Cons.IH[OF this p3]
  have ih: "index_attempts g w3 index doc_id doc retries ib [a + 1..retries] =
      (Inr (Some (if docs w3 (index, doc_id) = None then Created else Updated)),
       w3\<lparr>docs := (docs w3)((index, doc_id) \<mapsto> doc), pending := rest,
         trace := trace w3 @
           concat (map (\<lambda>(k, e). [Index_call index doc_id doc, Print_warn doc_id k e,
                                   Sleep_call (ib * 2 ^ nat (k - 1))]) (zip [a + 1..retries] es))
           @ [Index_call index doc_id doc]\<rparr>)" .
  have z: "zip [a..retries] (e # es) = (a, e) # zip [a + 1..retries] es"
    by (simp add: up)
  show ?case
    unfolding step ih z
    by (auto simp: d3 t3 w3_def emit_def intro!: world.equality)
qed

lemma index_attempts_exhausted:
  assumes "''time'' \<in> set g" "0 \<le> ib" "ib * 2 ^ nat (retries - 2) \<le> 9223372036"
  shows "1 \<le> a \<Longrightarrow> a \<le> retries \<Longrightarrow> int (length es) = retries - a + 1 \<Longrightarrow>
    pending w = map Some es @ rest \<Longrightarrow>
    index_attempts g w index doc_id doc retries ib [a..retries] =
      (Inl (last es),
       w\<lparr>pending := rest,
         trace := trace w @
           concat (map (\<lambda>(k, e). [Index_call index doc_id doc, Print_warn doc_id k e,
                                   Sleep_call (ib * 2 ^ nat (k - 1))]) (zip [a..retries - 1] (butlast es)))
           @ [Index_call index doc_id doc, Print_fail doc_id retries (last es)]\<rparr>)"
proof (induction es arbitrary: a w)
  case Nil
  then show ?case by simp
next
  case (Cons e es)
  have le: "a \<le> retries" using Cons.prems by simp
  have up: "[a..retries] = a # [a + 1..retries]"
    using le by (simp add: upto_rec1)
  have p: "pending w = Some e # (map Some es @ rest)"
    using Cons.prems by simp
  show ?case
  proof (cases "es = []")
    case True
    then have "a = retries" using Cons.prems by simp
    then show ?thesis
      unfolding up using True
      by (auto simp: es_index_fault[OF p] emit_def intro!: world.equality)
  next
    case False
    then have lt: "a < retries" using Cons.prems by (cases es) simp_all
    have up': "[a..retries - 1] = a # [a + 1..retries - 1]"
      using lt by (simp add: upto_rec1)
    define w3 where "w3 = emit (Sleep_call (ib * 2 ^ nat (a - 1)))
      (emit (Print_warn doc_id a e) ((emit (Index_call index doc_id doc) w)\<lparr>pending := map Some es @ rest\<rparr>))"
    have nonneg: "0 \<le> ib * 2 ^ nat (a - 1)"
      using assms(2) by simp
    have small: "ib * 2 ^ nat (a - 1) \<le> 9223372036"
      using wait_in_range[OF assms(2) _ lt assms(3)] Cons.prems by simp
    have step: "index_attempts g w index doc_id doc retries ib [a..retries] =
        index_attempts g w3 index doc_id doc retries ib [a + 1..retries]"
      unfolding up using lt
      by (simp add: es_index_fault[OF p] time_sleep_ok[OF assms(1) nonneg small] w3_def Let_def)
    have p3: "pending w3 = map Some es @ rest"
      and t3: "trace w3 = trace w @ [Index_call index doc_id doc, Print_warn doc_id a e,
                                     Sleep_call (ib * 2 ^ nat (a - 1))]"
      by (simp_all add: w3_def emit_def)
    have "1 \<le> a + 1" "a + 1 \<le> retries" "int (length es) = retries - (a + 1) + 1"
      using Cons.prems lt by simp_all
    from Cons.IH[OF this p3]
    have ih: "index_attempts g w3 index doc_id doc retries ib [a + 1..retries] =
      (Inl (last es),
       w3\<lparr>pending := rest,
         trace := trace w3 @
           concat (map (\<lambda>(k, e). [Index_call index doc_id doc, Print_warn doc_id k e,
                                   Sleep_call (ib * 2 ^ nat (k - 1))])
                    (zip [a + 1..retries - 1] (butlast es)))
           @ [Index_call index doc_id doc, Print_fail doc_id retries (last es)]\<rparr>)"
      by simp
    have z: "zip [a..retries - 1] (butlast (e # es)) = (a, e) # zip [a + 1..retries - 1] (butlast es)"
      using False by (simp add: up')
    have l: "last (e # es) = last es" using False by simp
    show ?thesis
      unfolding step ih z l
      by (auto simp: t3 w3_def emit_def intro!: world.equality)
  qed
qed

lemma index_document_retry:
  assumes "''time'' \<in> set g" "0 \<le> ib" "ib * 2 ^ nat (retries - 2) \<le> 9223372036"
    "int (length es) < retries" "pending w = map Some es @ None # rest"
  shows "index_document g w index doc_id doc retries ib =
      (Inr (Some (if docs w (index, doc_id) = None then Created else Updated)),
       w\<lparr>docs := (docs w)((index, doc_id) \<mapsto> doc), pending := rest,
         trace := trace w @
           concat (map (\<lambda>(k, e). [Index_call index doc_id doc, Print_warn doc_id k e,
                                   Sleep_call (ib * 2 ^ nat (k - 1))]) (zip [1..retries] es))
           @ [Index_call index doc_id doc]\<rparr>)"
  unfolding index_document_def
  using assms(4) by (intro index_attempts_retry[OF assms(1,2,3) _ _ assms(5)]) simp_all

lemma index_document_exhausted:
  assumes "''time'' \<in> set g" "0 \<le> ib" "ib * 2 ^ nat (retries - 2) \<le> 9223372036"
    "1 \<le> retries" "int (length es) = retries" "pending w = map Some es @ rest"
  shows "index_document g w index doc_id doc retries ib =
      (Inl (last es),
       w\<lparr>pending := rest,
         trace := trace w @
           concat (map (\<lambda>(k, e). [Index_call index doc_id doc, Print_warn doc_id k e,
                                   Sleep_call (ib * 2 ^ nat (k - 1))]) (zip [1..retries - 1] (butlast es)))
           @ [Index_call index doc_id doc, Print_fail doc_id retries (last es)]\<rparr>)"
  unfolding index_document_def
  using assms(4,5) by (intro index_attempts_exhausted[OF assms(1,2,3) _ _ _ assms(6)]) simp_all

text \<open>
  Claim C2, on the notebook as it stands. The claim is that a write which fails \<open>N\<close> times,
  \<open>N\<close> below the retry limit of 10, and then succeeds is retried after delays of
  \<open>initial_backoff * 2^(k-1)\<close> and returns the successful result. The notebook never
  imports \<^verbatim>\<open>time\<close>, so the handler's \<^verbatim>\<open>time.sleep(wait_time)\<close> raises \<^verbatim>\<open>NameError\<close>: with one
  failure scheduled and a success after it, \<^verbatim>\<open>index_document\<close> makes one attempt, prints the
  warning and raises, and the document is not written.
\<close>

theorem index_document_retry_NameError:
  "index_document notebook_names
     \<lparr>docs = Map.empty, pending = [Some (ServiceError ''connection timed out''), None], trace = []\<rparr>
     INDEX_NAME ''image_1.jpg'' \<lparr>pooled_col_pali_vectors = [''80'']\<rparr> 10 1 =
   (Inl (NameError ''time''),
    \<lparr>docs = Map.empty, pending = [None],
     trace = [Index_call INDEX_NAME ''image_1.jpg'' \<lparr>pooled_col_pali_vectors = [''80'']\<rparr>,
              Print_warn ''image_1.jpg'' 1 (ServiceError ''connection timed out'')]\<rparr>)"
  by (simp add: index_document_unbound_time[OF time_not_bound] emit_def)

text \<open>The same call in a namespace that binds \<^verbatim>\<open>time\<close>: one sleep of 1, then the write.\<close>

lemma index_document_retry_time_imported:
  "index_document (''time'' # notebook_names)
     \<lparr>docs = Map.empty, pending = [Some (ServiceError ''connection timed out''), None], trace = []\<rparr>
     INDEX_NAME ''image_1.jpg'' \<lparr>pooled_col_pali_vectors = [''80'']\<rparr> 10 1 =
   (Inr (Some Created),
    \<lparr>docs = [(INDEX_NAME, ''image_1.jpg'') \<mapsto> \<lparr>pooled_col_pali_vectors = [''80'']\<rparr>], pending = [],
     trace = [Index_call INDEX_NAME ''image_1.jpg'' \<lparr>pooled_col_pali_vectors = [''80'']\<rparr>,
              Print_warn ''image_1.jpg'' 1 (ServiceError ''connection timed out''),
              Sleep_call 1,
              Index_call INDEX_NAME ''image_1.jpg'' \<lparr>pooled_col_pali_vectors = [''80'']\<rparr>]\<rparr>)"
  using index_document_retry[where g = "''time'' # notebook_names" and ib = 1 and retries = 10
      and es = "[ServiceError ''connection timed out'']" and rest = "[]"
      and w = "\<lparr>docs = Map.empty,
                pending = [Some (ServiceError ''connection timed out''), None], trace = []\<rparr>"
      and index = INDEX_NAME and doc_id = "''image_1.jpg''"
      and doc = "\<lparr>pooled_col_pali_vectors = [''80'']\<rparr>"]
  by (simp add: upto_rec1)

text \<open>
  Claim C3, on the notebook as it stands. The claim is that a write which fails on every
  attempt is tried exactly 10 times and the last error is re-raised. With ten failures
  scheduled, \<^verbatim>\<open>index_document\<close> makes one attempt and raises the \<^verbatim>\<open>NameError\<close> of the unbound
  \<^verbatim>\<open>time\<close>; nine scheduled failures are never reached.
\<close>

theorem index_document_exhaustion_NameError:
  "index_document notebook_names
     \<lparr>docs = Map.empty, pending = replicate 10 (Some (ServiceError ''unavailable'')), trace = []\<rparr>
     INDEX_NAME ''image_1.jpg'' \<lparr>pooled_col_pali_vectors = [''80'']\<rparr> 10 1 =
   (Inl (NameError ''time''),
    \<lparr>docs = Map.empty, pending = replicate 9 (Some (ServiceError ''unavailable'')),
     trace = [Index_call INDEX_NAME ''image_1.jpg'' \<lparr>pooled_col_pali_vectors = [''80'']\<rparr>,
              Print_warn ''image_1.jpg'' 1 (ServiceError ''unavailable'')]\<rparr>)"
proof -
  have r: "replicate 10 (Some (ServiceError ''unavailable'')) =
      Some (ServiceError ''unavailable'') # replicate 9 (Some (ServiceError ''unavailable''))"
    by (simp add: numeral_eq_Suc)
  show ?thesis
    unfolding r by (simp add: index_document_unbound_time[OF time_not_bound] emit_def)
qed

subsection \<open>Claims about \<^verbatim>\<open>process_file\<close>\<close>

text \<open>
  In the notebook's namespace \<^verbatim>\<open>index_document\<close> with the defaults makes one call of the
  client: served, it returns; failed, the handler raises at \<^verbatim>\<open>time.sleep\<close>.
\<close>

lemma index_document_notebook_fault:
  assumes "pending w = Some e # rest"
  shows "index_document notebook_names w index doc_id doc 10 1 =
     (Inl (NameError ''time''),
      w\<lparr>pending := rest,
        trace := trace w @ [Index_call index doc_id doc, Print_warn doc_id 1 e]\<rparr>)"
  using index_document_unbound_time[OF time_not_bound _ assms, of 10 index doc_id doc 1]
  by (simp add: emit_def)

lemma index_document_notebook_served:
  assumes "pending w = [] \<or> hd (pending w) = None"
  shows "index_document notebook_names w index doc_id doc 10 1 =
     (Inr (Some (if docs w (index, doc_id) = None then Created else Updated)),
      w\<lparr>docs := (docs w)((index, doc_id) \<mapsto> doc), pending := tl (pending w),
        trace := trace w @ [Index_call index doc_id doc]\<rparr>)"
proof -
  have up: "[1..10] = 1 # [2..10]" by (simp add: upto_rec1)
  show ?thesis
    using assms unfolding index_document_def up
    by (cases "pending w")
       (auto simp: es_index_def next_outcome_def emit_def intro!: world.equality)
qed

text \<open>What one call of \<^verbatim>\<open>process_file\<close> adds to the trace, and what it does to the index.\<close>

lemma process_file_trace:
  "\<exists>evs. trace (snd (process_file P w file_name vectors)) = trace w @ evs
     \<and> length (filter is_index_call evs) \<le> 1
     \<and> (\<forall>ev \<in> set evs. is_index_call ev \<longrightarrow>
          (\<exists>pooled. P vectors = Inr pooled
             \<and> ev = Index_call INDEX_NAME file_name
                      \<lparr>pooled_col_pali_vectors = to_bit_vectors pooled\<rparr>))"
proof -
  obtain r w1 where ex: "es_exists w INDEX_NAME file_name = (r, w1)"
    by (cases "es_exists w INDEX_NAME file_name")
  have t1: "trace w1 = trace w @ [Exists_call INDEX_NAME file_name]"
    using es_exists_trace[of w INDEX_NAME file_name] ex by simp
  show ?thesis
  proof (cases "r = Inr False")
    case False
    then have "snd (process_file P w file_name vectors) = w1"
      using ex by (cases r) (auto simp: process_file_def)
    then show ?thesis by (simp add: t1)
  next
    case True
    show ?thesis
    proof (cases "P vectors")
      case (Inl e)
      then have "snd (process_file P w file_name vectors) = emit Pool_call w1"
        using ex True by (simp add: process_file_def pool_vectors_def)
      then show ?thesis by (simp add: t1 emit_def)
    next
      case (Inr pooled)
      let ?doc = "\<lparr>pooled_col_pali_vectors = to_bit_vectors pooled\<rparr>"
      let ?w2 = "emit Pool_call w1"
      have pf: "snd (process_file P w file_name vectors) =
          snd (index_document notebook_names ?w2 INDEX_NAME file_name ?doc 10 1)"
        using ex True Inr by (simp add: process_file_def pool_vectors_def split: prod.split sum.split)
      have t2: "trace ?w2 = trace w @ [Exists_call INDEX_NAME file_name, Pool_call]"
        by (simp add: t1 emit_def)
      show ?thesis
      proof (cases "pending ?w2")
        case Nil
        then show ?thesis
          using index_document_notebook_served[of ?w2 INDEX_NAME file_name ?doc] Inr
          by (simp add: pf t2)
      next
        case (Cons outcome rest)
        show ?thesis
        proof (cases outcome)
          case None
          with Cons show ?thesis
            using index_document_notebook_served[of ?w2 INDEX_NAME file_name ?doc] Inr
            by (simp add: pf t2)
        next
          case (Some e)
          with Cons show ?thesis
            using index_document_notebook_fault[of ?w2 e rest INDEX_NAME file_name ?doc] Inr
            by (simp add: pf t2)
        qed
      qed
    qed
  qed
qed

lemma index_document_notebook_docs:
  "docs (snd (index_document notebook_names w index doc_id doc 10 1)) k =
     (if fst (index_document notebook_names w index doc_id doc 10 1) = Inl (NameError ''time'')
         \<or> k \<noteq> (index, doc_id)
      then docs w k else Some doc)"
proof (cases "pending w")
  case Nil
  then show ?thesis
    using index_document_notebook_served[of w index doc_id doc] by simp
next
  case (Cons outcome rest)
  show ?thesis
  proof (cases outcome)
    case None
    with Cons show ?thesis
      using index_document_notebook_served[of w index doc_id doc] by simp
  next
    case (Some e)
    with Cons show ?thesis
      using index_document_notebook_fault[of w e rest index doc_id doc] by simp
  qed
qed

lemma index_document_notebook_result:
  "(\<exists>r. fst (index_document notebook_names w index doc_id doc 10 1) = Inr (Some r))
   \<or> fst (index_document notebook_names w index doc_id doc 10 1) = Inl (NameError ''time'')"
proof (cases "pending w")
  case Nil
  then show ?thesis
    using index_document_notebook_served[of w index doc_id doc] by simp
next
  case (Cons outcome rest)
  show ?thesis
  proof (cases outcome)
    case None
    with Cons show ?thesis
      using index_document_notebook_served[of w index doc_id doc] by simp
  next
    case (Some e)
    with Cons show ?thesis
      using index_document_notebook_fault[of w e rest index doc_id doc] by simp
  qed
qed

lemma process_file_docs:
  "docs (snd (process_file P w file_name vectors)) k =
     (if (\<exists>e. fst (process_file P w file_name vectors) = Inl e) \<or> k \<noteq> (INDEX_NAME, file_name)
         \<or> docs w (INDEX_NAME, file_name) \<noteq> None
      then docs w k
      else Some \<lparr>pooled_col_pali_vectors = to_bit_vectors (projr (P vectors))\<rparr>)"
proof -
  obtain r w1 where ex: "es_exists w INDEX_NAME file_name = (r, w1)"
    by (cases "es_exists w INDEX_NAME file_name")
  have d1: "docs w1 = docs w"
    using es_exists_docs[of w INDEX_NAME file_name] ex by simp
  have res: "r = Inr False \<Longrightarrow> docs w (INDEX_NAME, file_name) = None"
    using es_exists_result[of w INDEX_NAME file_name] ex
    by (auto split: list.splits option.splits)
  show ?thesis
  proof (cases "r = Inr False")
    case False
    have "r = Inr True \<Longrightarrow> docs w (INDEX_NAME, file_name) \<noteq> None"
      using es_exists_result[of w INDEX_NAME file_name] ex
      by (auto split: list.splits option.splits)
    then show ?thesis
      using False ex d1 by (cases r) (auto simp: process_file_def)
  next
    case True
    note absent = res[OF True]
    show ?thesis
    proof (cases "P vectors")
      case (Inl e)
      then show ?thesis
        using ex True d1 by (simp add: process_file_def pool_vectors_def emit_def)
    next
      case (Inr pooled)
      let ?doc = "\<lparr>pooled_col_pali_vectors = to_bit_vectors pooled\<rparr>"
      let ?w2 = "emit Pool_call w1"
      let ?ix = "index_document notebook_names ?w2 INDEX_NAME file_name ?doc 10 1"
      have d2: "docs ?w2 = docs w" by (simp add: d1 emit_def)
      have pf: "process_file P w file_name vectors =
          (case fst ?ix of Inl e \<Rightarrow> Inl e | Inr _ \<Rightarrow> Inr (), snd ?ix)"
        using ex True Inr by (simp add: process_file_def pool_vectors_def split: prod.split sum.split)
      from index_document_notebook_result[of ?w2 INDEX_NAME file_name ?doc]
      show ?thesis
      proof
        assume "\<exists>r. fst ?ix = Inr (Some r)"
        then show ?thesis
          using index_document_notebook_docs[of ?w2 INDEX_NAME file_name ?doc k] absent Inr
          by (auto simp: pf d2)
      next
        assume "fst ?ix = Inl (NameError ''time'')"
        then show ?thesis
          using index_document_notebook_docs[of ?w2 INDEX_NAME file_name ?doc k]
          by (auto simp: pf d2)
      qed
    qed
  qed
qed

text \<open>
  Claim C4. For an identifier already present in the target index, \<^verbatim>\<open>process_file\<close> makes the
  existence check and nothing else: no pooler call, no write, no sleep; the index is
  unchanged, the outcome does not depend on the pooler or on the vectors (so nothing is
  pooled or binarized), and it returns when the check is answered. So every call of a re-run
  that finds its document indexed performs zero writes. A document is indexed at most once:
  whatever state a call finds, it calls \<^verbatim>\<open>es_client.index\<close> at most once, and then for its own
  identifier with the binarized pooled vectors; it changes no other entry of the index; a
  call that raises leaves the index as it was; and a call that returns leaves its identifier
  present, so that a later call for it makes the existence check only.
\<close>

theorem process_file_skips_indexed:
  "(docs w (INDEX_NAME, file_name) \<noteq> None \<longrightarrow>
      trace (snd (process_file P w file_name vectors)) = trace w @ [Exists_call INDEX_NAME file_name]
      \<and> docs (snd (process_file P w file_name vectors)) = docs w
      \<and> process_file P w file_name vectors = process_file P' w file_name vectors'
      \<and> (pending w = [] \<or> hd (pending w) = None \<longrightarrow>
           fst (process_file P w file_name vectors) = Inr ()))
   \<and> (\<exists>evs. trace (snd (process_file P w file_name vectors)) = trace w @ evs
        \<and> length (filter is_index_call evs) \<le> 1
        \<and> (\<forall>ev \<in> set evs. is_index_call ev \<longrightarrow>
             (\<exists>pooled. P vectors = Inr pooled
                \<and> ev = Index_call INDEX_NAME file_name
                         \<lparr>pooled_col_pali_vectors = to_bit_vectors pooled\<rparr>)))
   \<and> (fst (process_file P w file_name vectors) = Inl e \<longrightarrow>
        docs (snd (process_file P w file_name vectors)) = docs w)
   \<and> (k \<noteq> (INDEX_NAME, file_name) \<longrightarrow>
        docs (snd (process_file P w file_name vectors)) k = docs w k)
   \<and> (process_file P w file_name vectors = (Inr (), w') \<longrightarrow>
        docs w' (INDEX_NAME, file_name) \<noteq> None
        \<and> trace (snd (process_file P' w' file_name vectors')) =
            trace w' @ [Exists_call INDEX_NAME file_name]
        \<and> docs (snd (process_file P' w' file_name vectors')) = docs w')"
proof (intro conjI impI)
  assume present: "docs w (INDEX_NAME, file_name) \<noteq> None"
  note pf = process_file_present[OF present]
  show "trace (snd (process_file P w file_name vectors)) = trace w @ [Exists_call INDEX_NAME file_name]"
    by (simp add: pf es_exists_trace)
  show "docs (snd (process_file P w file_name vectors)) = docs w"
    by (simp add: pf es_exists_docs)
  show "process_file P w file_name vectors = process_file P' w file_name vectors'"
    by (simp add: pf)
  assume "pending w = [] \<or> hd (pending w) = None"
  then have "fst (es_exists w INDEX_NAME file_name) = Inr True"
    using present by (auto simp: es_exists_result split: list.splits option.splits)
  then show "fst (process_file P w file_name vectors) = Inr ()"
    by (simp add: pf)
next
  show "\<exists>evs. trace (snd (process_file P w file_name vectors)) = trace w @ evs
        \<and> length (filter is_index_call evs) \<le> 1
        \<and> (\<forall>ev \<in> set evs. is_index_call ev \<longrightarrow>
             (\<exists>pooled. P vectors = Inr pooled
                \<and> ev = Index_call INDEX_NAME file_name
                         \<lparr>pooled_col_pali_vectors = to_bit_vectors pooled\<rparr>))"
    by (rule process_file_trace)
next
  assume "fst (process_file P w file_name vectors) = Inl e"
  then show "docs (snd (process_file P w file_name vectors)) = docs w"
    by (intro ext) (simp add: process_file_docs)
next
  assume "k \<noteq> (INDEX_NAME, file_name)"
  then show "docs (snd (process_file P w file_name vectors)) k = docs w k"
    by (simp add: process_file_docs)
next
  assume run: "process_file P w file_name vectors = (Inr (), w')"
  then show present': "docs w' (INDEX_NAME, file_name) \<noteq> None"
    by (rule process_file_returns_indexed)
  note pf = process_file_present[OF present']
  show "trace (snd (process_file P' w' file_name vectors')) =
      trace w' @ [Exists_call INDEX_NAME file_name]"
    by (simp add: pf es_exists_trace)
  show "docs (snd (process_file P' w' file_name vectors')) = docs w'"
    by (simp add: pf es_exists_docs)
qed

text \<open>
  A new document is written once; processed again it is skipped; a write that fails leaves
  the index empty; another identifier is not touched.
\<close>

theorem process_file_skips_indexed_witness:
  "process_file (\<lambda>e. Inr e) \<lparr>docs = Map.empty, pending = [], trace = []\<rparr>
      ''image_1.jpg'' [[Finite 1]]
     = (Inr (),
        \<lparr>docs = [(INDEX_NAME, ''image_1.jpg'') \<mapsto> \<lparr>pooled_col_pali_vectors = [''80'']\<rparr>],
         pending = [],
         trace = [Exists_call INDEX_NAME ''image_1.jpg'', Pool_call,
                  Index_call INDEX_NAME ''image_1.jpg'' \<lparr>pooled_col_pali_vectors = [''80'']\<rparr>]\<rparr>)
   \<and> trace (snd (process_file (\<lambda>e. Inl (ValueError ''empty''))
        \<lparr>docs = [(INDEX_NAME, ''image_1.jpg'') \<mapsto> \<lparr>pooled_col_pali_vectors = [''80'']\<rparr>],
         pending = [],
         trace = [Exists_call INDEX_NAME ''image_1.jpg'', Pool_call,
                  Index_call INDEX_NAME ''image_1.jpg'' \<lparr>pooled_col_pali_vectors = [''80'']\<rparr>]\<rparr>
        ''image_1.jpg'' []))
     = [Exists_call INDEX_NAME ''image_1.jpg'', Pool_call,
        Index_call INDEX_NAME ''image_1.jpg'' \<lparr>pooled_col_pali_vectors = [''80'']\<rparr>,
        Exists_call INDEX_NAME ''image_1.jpg'']
   \<and> fst (process_file (\<lambda>e. Inr e)
        \<lparr>docs = [(INDEX_NAME, ''image_1.jpg'') \<mapsto> \<lparr>pooled_col_pali_vectors = [''80'']\<rparr>],
         pending = [],
         trace = [Exists_call INDEX_NAME ''image_1.jpg'', Pool_call,
                  Index_call INDEX_NAME ''image_1.jpg'' \<lparr>pooled_col_pali_vectors = [''80'']\<rparr>]\<rparr>
        ''image_1.jpg'' [[Finite 1]]) = Inr ()
   \<and> fst (process_file (\<lambda>e. Inr e)
        \<lparr>docs = Map.empty, pending = [None, Some (ServiceError ''timeout'')], trace = []\<rparr>
        ''image_1.jpg'' [[Finite 1]]) = Inl (NameError ''time'')
   \<and> docs (snd (process_file (\<lambda>e. Inr e)
        \<lparr>docs = Map.empty, pending = [None, Some (ServiceError ''timeout'')], trace = []\<rparr>
        ''image_1.jpg'' [[Finite 1]])) = Map.empty
   \<and> docs (snd (process_file (\<lambda>e. Inr e) \<lparr>docs = Map.empty, pending = [], trace = []\<rparr>
        ''image_1.jpg'' [[Finite 1]])) (INDEX_NAME, ''image_2.jpg'') = None
   \<and> (\<exists>evs. trace (snd (process_file (\<lambda>e. Inr e) \<lparr>docs = Map.empty, pending = [], trace = []\<rparr>
        ''image_1.jpg'' [[Finite 1]])) = evs \<and> length (filter is_index_call evs) = 1)"
proof -
  let ?doc = "\<lparr>pooled_col_pali_vectors = [''80'']\<rparr>"
  let ?w0 = "\<lparr>docs = Map.empty, pending = [], trace = []\<rparr>"
  let ?w1 = "\<lparr>docs = [(INDEX_NAME, ''image_1.jpg'') \<mapsto> ?doc], pending = [],
         trace = [Exists_call INDEX_NAME ''image_1.jpg'', Pool_call,
                  Index_call INDEX_NAME ''image_1.jpg'' ?doc]\<rparr>"
  let ?wf = "\<lparr>docs = Map.empty, pending = [None, Some (ServiceError ''timeout'')], trace = []\<rparr>"
  let ?P = "\<lambda>e::py_float list list. Inr e :: exn + py_float list list"
  let ?Q = "\<lambda>e::py_float list list. Inl (ValueError ''empty'') :: exn + py_float list list"
  have bits: "to_bit_vectors [[Finite 1]] = [''80'']" by code_simp
  have first: "process_file ?P ?w0 ''image_1.jpg'' [[Finite 1]] = (Inr (), ?w1)"
    by (simp add: process_file_def es_exists_def pool_vectors_def next_outcome_def emit_def bits
        index_document_notebook_served)
  have failing: "fst (process_file ?P ?wf ''image_1.jpg'' [[Finite 1]]) = Inl (NameError ''time'')"
    by (simp add: process_file_def es_exists_def pool_vectors_def next_outcome_def emit_def bits
        index_document_notebook_fault)
  note new = process_file_skips_indexed[of ?w0 "''image_1.jpg''" ?P "[[Finite 1]]" ?Q "[]"
      "NameError ''time''" "(INDEX_NAME, ''image_2.jpg'')" ?w1]
  note again = process_file_skips_indexed[of ?w1 "''image_1.jpg''" ?P "[[Finite 1]]" ?Q "[]"
      "NameError ''time''" "(INDEX_NAME, ''image_2.jpg'')" ?w1]
  note failed = process_file_skips_indexed[of ?wf "''image_1.jpg''" ?P "[[Finite 1]]" ?Q "[]"
      "NameError ''time''" "(INDEX_NAME, ''image_2.jpg'')" ?w1]
  have present: "docs ?w1 (INDEX_NAME, ''image_1.jpg'') \<noteq> None"
    using new first by blast
  have rerun: "trace (snd (process_file ?Q ?w1 ''image_1.jpg'' [])) =
      trace ?w1 @ [Exists_call INDEX_NAME ''image_1.jpg'']"
    using new first by blast
  have served: "pending ?w1 = [] \<or> hd (pending ?w1) = None" by simp
  have returns: "fst (process_file ?P ?w1 ''image_1.jpg'' [[Finite 1]]) = Inr ()"
    using again present served by blast
  have unchanged: "docs (snd (process_file ?P ?wf ''image_1.jpg'' [[Finite 1]])) = docs ?wf"
    using failed failing by blast
  have other: "(INDEX_NAME, ''image_2.jpg'') \<noteq> (INDEX_NAME, ''image_1.jpg'')" by simp
  have frame: "docs (snd (process_file ?P ?w0 ''image_1.jpg'' [[Finite 1]])) (INDEX_NAME, ''image_2.jpg'')
      = docs ?w0 (INDEX_NAME, ''image_2.jpg'')"
    using new other by blast
  have once: "length (filter is_index_call (trace (snd (process_file ?P ?w0 ''image_1.jpg'' [[Finite 1]])))) = 1"
    by (simp add: first)
  from first rerun returns failing unchanged frame once show ?thesis
    by simp
qed

section \<open>The query path\<close>

text \<open>
  Claim C8. For a search request (the query has been encoded), the query path calls the
  engine's search exactly once, with no sleep and no second call whatever the outcome; a
  failure of that call is the outcome of the cell, raised to the caller as it is.
\<close>

theorem search_failure_surfaced:
  "create_col_pali_query_vectors model query = Inr qv \<longrightarrow>
     trace (snd (search_cell model rank w query)) = trace w @ [Search_call INDEX_NAME]
     \<and> docs (snd (search_cell model rank w query)) = docs w
     \<and> (pending w = Some e # rest \<longrightarrow>
          search_cell model rank w query =
            (Inl e, w\<lparr>pending := rest, trace := trace w @ [Search_call INDEX_NAME]\<rparr>))"
  by (auto simp: search_cell_def es_search_def next_outcome_def emit_def
      split: list.splits option.splits)

text \<open>A search that fails: one call, the error surfaced, the later outcome not consumed.\<close>

theorem search_failure_surfaced_witness:
  "create_col_pali_query_vectors (\<lambda>qs. Inr (map length qs)) ''recruiting'' = Inr 10
   \<and> pending \<lparr>docs = Map.empty, pending = [Some (ServiceError ''unavailable''), None], trace = []\<rparr>
       = Some (ServiceError ''unavailable'') # [None]
   \<and> search_cell (\<lambda>qs. Inr (map length qs)) (\<lambda>d i q. [])
        \<lparr>docs = Map.empty, pending = [Some (ServiceError ''unavailable''), None], trace = []\<rparr>
        ''recruiting''
      = (Inl (ServiceError ''unavailable''),
         \<lparr>docs = Map.empty, pending = [None], trace = [Search_call INDEX_NAME]\<rparr>)"
proof -
  let ?w = "\<lparr>docs = Map.empty, pending = [Some (ServiceError ''unavailable''), None], trace = []\<rparr>"
  have enc: "create_col_pali_query_vectors (\<lambda>qs. Inr (map length qs)) ''recruiting'' = Inr 10"
    by (simp add: create_col_pali_query_vectors_def)
  have p: "pending ?w = Some (ServiceError ''unavailable'') # [None]" by simp
  from search_failure_surfaced[of "\<lambda>qs. Inr (map length qs)" "''recruiting''" 10 "\<lambda>d i q. []" ?w
      "ServiceError ''unavailable''" "[None]"] enc p
  have "search_cell (\<lambda>qs. Inr (map length qs)) (\<lambda>d i q. []) ?w ''recruiting''
      = (Inl (ServiceError ''unavailable''),
         ?w\<lparr>pending := [None], trace := trace ?w @ [Search_call INDEX_NAME]\<rparr>)"
    by blast
  then have "search_cell (\<lambda>qs. Inr (map length qs)) (\<lambda>d i q. []) ?w ''recruiting''
      = (Inl (ServiceError ''unavailable''),
         \<lparr>docs = Map.empty, pending = [None], trace = [Search_call INDEX_NAME]\<rparr>)"
    by simp
  with enc p show ?thesis by blast
qed

text \<open>
  What the encoder returns is element 0 of what the model gave for the batch of one, and the
  request carries it unchanged.
\<close>

lemma create_col_pali_query_vectors_first:
  "create_col_pali_query_vectors model query = Inr x \<longleftrightarrow> (\<exists>others. model [query] = Inr (x # others))"
  by (auto simp: create_col_pali_query_vectors_def split: sum.splits list.splits)

lemma search_cell_request:
  assumes "model [query] = Inr (x # others)" "pending w = [] \<or> hd (pending w) = None"
  shows "fst (search_cell model rank w query) =
     Inr (rank (docs w) INDEX_NAME
       \<lparr>source_flag = False,
        script_source = ''maxSimDotProduct(params.query_vector, 'pooled_col_pali_vectors')'',
        query_vector = x, size_k = 5\<rparr>)"
  using assms
  by (auto simp: search_cell_def create_col_pali_query_vectors_def es_search_def next_outcome_def
      emit_def split: list.splits option.splits)

end
